theory Spec2Isabelle
  imports Main
begin

section \<open>Python values, dictionaries and errors\<close>

text \<open>
  The values that travel through \<^verbatim>\<open>app.py\<close> are the ones the \<^verbatim>\<open>sqlite3\<close> module hands
  back for the columns of the two tables: \<^verbatim>\<open>None\<close> (SQL NULL), \<^verbatim>\<open>int\<close> (INTEGER) and
  \<^verbatim>\<open>str\<close> (TEXT). Python integers are unbounded, hence \<^typ>\<open>int\<close>.
\<close>

datatype pyval = PNone | PInt int | PStr string

text \<open>Every \<^verbatim>\<open>raise\<close> that the functions of \<^verbatim>\<open>app.py\<close> can run into is a value.\<close>

datatype error = ValueError | KeyError | OperationalError | IntegrityError | OverflowError

text \<open>
  A Python \<^verbatim>\<open>dict\<close> keeps its keys in insertion order, and the code depends on that order
  (\<^verbatim>\<open>list(data[0].keys())\<close>, \<^verbatim>\<open>counts.items()\<close>). A dictionary is therefore an association
  list whose keys are pairwise distinct, in insertion order.
\<close>

type_synonym ('k, 'v) pydict = "('k \<times> 'v) list"

definition keys :: "('k, 'v) pydict \<Rightarrow> 'k list" where
  "keys d = map fst d"

text \<open>\<^verbatim>\<open>d.get(k, default)\<close>\<close>

definition dict_get :: "('k, 'v) pydict \<Rightarrow> 'k \<Rightarrow> 'v \<Rightarrow> 'v" where
  "dict_get d k dflt = (case map_of d k of None \<Rightarrow> dflt | Some v \<Rightarrow> v)"

text \<open>
  \<^verbatim>\<open>d[k] = v\<close>: an existing key keeps its position and gets the new value, a new key
  goes to the end.
\<close>

fun dict_set :: "'k \<Rightarrow> 'v \<Rightarrow> ('k, 'v) pydict \<Rightarrow> ('k, 'v) pydict" where
  "dict_set k v [] = [(k, v)]"
| "dict_set k v ((k', v') # d) = (if k' = k then (k', v) # d else (k', v') # dict_set k v d)"

subsection \<open>\<^verbatim>\<open>str()\<close> of the values\<close>

definition digit_char :: "nat \<Rightarrow> char" where
  "digit_char n = ''0123456789'' ! n"

function str_nat :: "nat \<Rightarrow> string" where
  "str_nat n = (if n < 10 then [digit_char n] else str_nat (n div 10) @ [digit_char (n mod 10)])"
  by pat_completeness auto
termination
  by (relation "measure id") auto

declare str_nat.simps [simp del]

definition str_int :: "int \<Rightarrow> string" where
  "str_int i = (if i < 0 then CHR ''-'' # str_nat (nat (- i)) else str_nat (nat i))"


text \<open>\<^verbatim>\<open>sep.join(lines)\<close>\<close>

fun join :: "string \<Rightarrow> string list \<Rightarrow> string" where
  "join sep [] = []"
| "join sep [x] = x"
| "join sep (x # y # ys) = x @ sep @ join sep (y # ys)"

section \<open>Exporter: \<^verbatim>\<open>export_csv\<close>\<close>

text \<open>
  \<^verbatim>\<open>csv.DictWriter(buffer, fieldnames=fieldnames)\<close> writes with the \<^verbatim>\<open>excel\<close> dialect:
  delimiter \<^verbatim>\<open>,\<close>, quote character \<^verbatim>\<open>"\<close>, \<^verbatim>\<open>doublequote=True\<close>, \<^verbatim>\<open>QUOTE_MINIMAL\<close>, and the
  line terminator CR LF. The buffer is an \<^verbatim>\<open>io.StringIO()\<close>, which does not translate
  line endings on writing, so \<^verbatim>\<open>getvalue()\<close> is the concatenation of what was written.
\<close>

definition delimiter :: char where
  "delimiter = CHR '',''"

definition quotechar :: char where
  "quotechar = CHR 0x22"

definition lineterminator :: string where
  "lineterminator = [CHR 0x0D, CHR 0x0A]"

text \<open>
  The writer turns a field into text first: \<^verbatim>\<open>None\<close> is the empty string, a \<^verbatim>\<open>str\<close> is
  itself, anything else goes through \<^verbatim>\<open>str()\<close>. The interpreter limits the conversion of
  an \<^verbatim>\<open>int\<close> to decimal text (\<^verbatim>\<open>sys.get_int_max_str_digits()\<close>, 4300 by default): \<^verbatim>\<open>str()\<close>
  of an \<^verbatim>\<open>int\<close> with more digits raises \<^verbatim>\<open>ValueError\<close>, and the writer passes the error on.
\<close>

definition int_max_str_digits :: nat where
  "int_max_str_digits = 4300"

definition str_fits :: "int \<Rightarrow> bool" where
  "str_fits i = (\<bar>i\<bar> < 10 ^ int_max_str_digits)"

fun csv_text :: "pyval \<Rightarrow> error + string" where
  "csv_text PNone = Inr []"
| "csv_text (PStr s) = Inr s"
| "csv_text (PInt i) = (if str_fits i then Inr (str_int i) else Inl ValueError)"

text \<open>The fields of a row are converted in order; the first that raises ends the row.\<close>

fun convert_fields :: "pyval list \<Rightarrow> error + string list" where
  "convert_fields [] = Inr []"
| "convert_fields (v # vs) =
     (case csv_text v of
        Inl e \<Rightarrow> Inl e
      | Inr s \<Rightarrow>
          (case convert_fields vs of
             Inl e \<Rightarrow> Inl e
           | Inr ss \<Rightarrow> Inr (s # ss)))"

text \<open>
  \<^verbatim>\<open>QUOTE_MINIMAL\<close>: a field is quoted when it holds the delimiter, the quote character
  or a character of the line terminator; inside a quoted or unquoted field every quote
  character is written twice.
\<close>

definition special :: "char \<Rightarrow> bool" where
  "special c = (c = delimiter \<or> c = quotechar \<or> c \<in> set lineterminator)"

fun double_quotes :: "string \<Rightarrow> string" where
  "double_quotes [] = []"
| "double_quotes (c # cs) = (if c = quotechar then [c, c] else [c]) @ double_quotes cs"

definition csv_field :: "string \<Rightarrow> string" where
  "csv_field field =
     (if list_ex special field then quotechar # double_quotes field @ [quotechar]
      else double_quotes field)"

text \<open>
  One record of the writer: the fields joined by the delimiter; a record that would
  come out empty although it has a field (one single empty field) is written as an
  empty quoted field; then the line terminator.
\<close>

definition csv_writerow :: "string list \<Rightarrow> string" where
  "csv_writerow fields =
     (let rec = join [delimiter] (map csv_field fields)
      in (if fields \<noteq> [] \<and> rec = [] then [quotechar, quotechar] else rec) @ lineterminator)"

text \<open>
  \<^verbatim>\<open>DictWriter._dict_to_list\<close> with the defaults \<^verbatim>\<open>restval=''\<close> and
  \<^verbatim>\<open>extrasaction='raise'\<close>: a key of the row that is no field name raises
  \<^verbatim>\<open>ValueError\<close>; a field name the row lacks is filled with the empty string.
\<close>

definition dict_to_list :: "string list \<Rightarrow> (string, pyval) pydict \<Rightarrow> error + pyval list" where
  "dict_to_list fieldnames rowdict =
     (let wrong_fields = filter (\<lambda>k. k \<notin> set fieldnames) (keys rowdict)
      in if wrong_fields \<noteq> [] then Inl ValueError
         else Inr (map (\<lambda>key. dict_get rowdict key (PStr [])) fieldnames))"

text \<open>\<^verbatim>\<open>writeheader\<close> writes the row \<^verbatim>\<open>dict(zip(fieldnames, fieldnames))\<close>.\<close>

definition writeheader :: "string list \<Rightarrow> string" where
  "writeheader fieldnames = csv_writerow fieldnames"

fun writerows :: "string list \<Rightarrow> (string, pyval) pydict list \<Rightarrow> error + string" where
  "writerows fieldnames [] = Inr []"
| "writerows fieldnames (rowdict # rowdicts) =
     (case dict_to_list fieldnames rowdict of
        Inl e \<Rightarrow> Inl e
      | Inr fields \<Rightarrow>
          (case convert_fields fields of
             Inl e \<Rightarrow> Inl e
           | Inr texts \<Rightarrow>
               (case writerows fieldnames rowdicts of
                  Inl e \<Rightarrow> Inl e
                | Inr out \<Rightarrow> Inr (csv_writerow texts @ out))))"

definition export_csv :: "(string, pyval) pydict list \<Rightarrow> error + string" where
  "export_csv data =
     (case data of
        [] \<Rightarrow> Inr []
      | first # _ \<Rightarrow>
          (let fieldnames = keys first
           in case writerows fieldnames data of
                Inl e \<Rightarrow> Inl e
              | Inr body \<Rightarrow> Inr (writeheader fieldnames @ body)))"

section \<open>Exporter: \<^verbatim>\<open>markdown_table\<close>\<close>



section \<open>Aggregator: \<^verbatim>\<open>Counter\<close>\<close>

text \<open>
  \<^verbatim>\<open>Counter(iterable)\<close> runs \<^verbatim>\<open>self[elem] = self.get(elem, 0) + 1\<close> for each element, on
  an initially empty dictionary.
\<close>

definition count_elem :: "'k \<Rightarrow> ('k, int) pydict \<Rightarrow> ('k, int) pydict" where
  "count_elem elem d = dict_set elem (dict_get d elem 0 + 1) d"

definition Counter :: "'k list \<Rightarrow> ('k, int) pydict" where
  "Counter iterable = fold count_elem iterable []"

section \<open>Store: the database\<close>

text \<open>
  The database file holds at most one table of each name. A table has its columns, in
  declaration order (what \<^verbatim>\<open>PRAGMA table_info\<close> lists), its rows in rowid order, one
  value per column, and the counter that \<^verbatim>\<open>AUTOINCREMENT\<close> keeps in
  \<^verbatim>\<open>sqlite_sequence\<close>: the largest rowid the table has ever given out. A column
  carries the two declarations the statements of \<^verbatim>\<open>app.py\<close> use: \<^verbatim>\<open>NOT NULL\<close> and
  \<^verbatim>\<open>INTEGER PRIMARY KEY AUTOINCREMENT\<close>. \<^verbatim>\<open>FOREIGN KEY\<close> is declared but not enforced:
  the connections of \<^verbatim>\<open>app.py\<close> never switch \<^verbatim>\<open>PRAGMA foreign_keys\<close> on.

  Every function of the store opens its own connection, runs its statements, commits
  and closes, so a call is a function from the database before to an error or the
  database after. A raised call leaves the database as it was. Failures of the storage
  itself (a file that cannot be opened or written) are outside the model, and rowids
  are unbounded integers.
\<close>

record column =
  c_name :: string
  c_notnull :: bool
  c_autoinc :: bool

record table =
  t_cols :: "column list"
  t_rows :: "pyval list list"
  t_seq :: int

record db =
  events :: "table option"
  attendees :: "table option"

definition empty_db :: db where
  "empty_db = \<lparr>events = None, attendees = None\<rparr>"

definition col :: "string \<Rightarrow> bool \<Rightarrow> bool \<Rightarrow> column" where
  "col name notnull autoinc = \<lparr>c_name = name, c_notnull = notnull, c_autoinc = autoinc\<rparr>"

definition events_schema :: "column list" where
  "events_schema =
     [col ''id'' False True, col ''title'' True False, col ''event_date'' True False,
      col ''location'' False False, col ''topic'' False False]"

definition attendees_schema :: "column list" where
  "attendees_schema =
     [col ''id'' False True, col ''event_id'' True False, col ''name'' True False,
      col ''gender'' False False, col ''province'' False False]"

definition column_names :: "table \<Rightarrow> string list" where
  "column_names t = map c_name (t_cols t)"

subsection \<open>The statements\<close>

text \<open>\<^verbatim>\<open>CREATE TABLE IF NOT EXISTS\<close>: a table of that name stays as it is.\<close>

definition create_table_if_not_exists :: "column list \<Rightarrow> table option \<Rightarrow> table option" where
  "create_table_if_not_exists cols t =
     (case t of
        None \<Rightarrow> Some \<lparr>t_cols = cols, t_rows = [], t_seq = 0\<rparr>
      | Some old \<Rightarrow> Some old)"

text \<open>\<^verbatim>\<open>[col[1] for col in c.execute("PRAGMA table_info(events)").fetchall()]\<close>\<close>

definition table_info_names :: "table option \<Rightarrow> string list" where
  "table_info_names t = (case t of None \<Rightarrow> [] | Some tb \<Rightarrow> column_names tb)"

text \<open>
  \<^verbatim>\<open>ALTER TABLE t RENAME COLUMN old TO new\<close>. The engine refuses it when the table or
  the old column is missing or the new name is taken; it may refuse it for reasons
  the model does not hold (an engine older than the statement, a view or trigger that
  the rename would break): \<open>accepted\<close> is the engine's verdict on those. A rename
  changes the schema and no row.
\<close>

definition rename_column :: "bool \<Rightarrow> string \<Rightarrow> string \<Rightarrow> table option \<Rightarrow> error + table option" where
  "rename_column accepted old new t =
     (case t of
        None \<Rightarrow> Inl OperationalError
      | Some tb \<Rightarrow>
          if \<not> accepted \<or> old \<notin> set (column_names tb) \<or> new \<in> set (column_names tb)
          then Inl OperationalError
          else Inr (Some (tb\<lparr>t_cols :=
                 map (\<lambda>c. if c_name c = old then c\<lparr>c_name := new\<rparr> else c) (t_cols tb)\<rparr>)))"

text \<open>
  The module binds a Python \<^verbatim>\<open>int\<close> as a 64-bit INTEGER and raises \<^verbatim>\<open>OverflowError\<close>
  for one that does not fit.
\<close>

definition fits_int64 :: "pyval \<Rightarrow> bool" where
  "fits_int64 v = (case v of PInt i \<Rightarrow> - (2 ^ 63) \<le> i \<and> i < 2 ^ 63 | _ \<Rightarrow> True)"

text \<open>
  \<^verbatim>\<open>INSERT INTO t (names) VALUES (?, ...)\<close>: the statement is compiled (the table and
  the named columns must exist), the parameters are bound, and the new row gets, for
  each column, the bound value, or the next rowid for the \<^verbatim>\<open>AUTOINCREMENT\<close> column, or
  NULL. A NULL in a \<^verbatim>\<open>NOT NULL\<close> column raises \<^verbatim>\<open>IntegrityError\<close>.
\<close>

definition new_row :: "table \<Rightarrow> (string, pyval) pydict \<Rightarrow> pyval list" where
  "new_row tb bound =
     map (\<lambda>c. case map_of bound (c_name c) of
                 Some v \<Rightarrow> v
               | None \<Rightarrow> if c_autoinc c then PInt (t_seq tb + 1) else PNone)
         (t_cols tb)"

definition insert_row :: "(string, pyval) pydict \<Rightarrow> table option \<Rightarrow> error + table option" where
  "insert_row bound t =
     (case t of
        None \<Rightarrow> Inl OperationalError
      | Some tb \<Rightarrow>
          if list_ex (\<lambda>name. name \<notin> set (column_names tb)) (keys bound) then Inl OperationalError
          else if list_ex (\<lambda>v. \<not> fits_int64 v) (map snd bound) then Inl OverflowError
          else let row = new_row tb bound
               in if list_ex (\<lambda>(c, v). c_notnull c \<and> v = PNone) (zip (t_cols tb) row)
                  then Inl IntegrityError
                  else Inr (Some (tb\<lparr>t_rows := t_rows tb @ [row],
                                      t_seq := (if list_ex c_autoinc (t_cols tb)
                                                then t_seq tb + 1 else t_seq tb)\<rparr>)))"

text \<open>The value of a row in the column of that name.\<close>

definition cell :: "table \<Rightarrow> pyval list \<Rightarrow> string \<Rightarrow> pyval" where
  "cell tb row name = dict_get (zip (column_names tb) row) name PNone"


text \<open>SQL's \<^verbatim>\<open>=\<close> in a join condition: NULL equals nothing.\<close>

definition sql_eq :: "pyval \<Rightarrow> pyval \<Rightarrow> bool" where
  "sql_eq x y = (x \<noteq> PNone \<and> y \<noteq> PNone \<and> x = y)"

subsection \<open>\<^verbatim>\<open>init_db\<close>\<close>

text \<open>
  The statements a call hands to the engine, in order, are part of its result, so
  that whether the rename was attempted can be read off. The \<^verbatim>\<open>except Exception: pass\<close>
  is the \<open>Inl\<close> branch of the rename.
\<close>

datatype stmt = CreateEvents | CreateAttendees | TableInfo | RenameColumn | Commit

definition init_db :: "bool \<Rightarrow> db \<Rightarrow> error + (stmt list \<times> db)" where
  "init_db accepted d =
     (let d1 = d\<lparr>events := create_table_if_not_exists events_schema (events d)\<rparr>;
          d2 = d1\<lparr>attendees := create_table_if_not_exists attendees_schema (attendees d1)\<rparr>;
          names = table_info_names (events d2);
          log = [CreateEvents, CreateAttendees, TableInfo]
      in if ''date'' \<in> set names \<and> ''event_date'' \<notin> set names
         then (case rename_column accepted ''date'' ''event_date'' (events d2) of
                 Inr t \<Rightarrow> Inr (log @ [RenameColumn, Commit, Commit], d2\<lparr>events := t\<rparr>)
               | Inl e \<Rightarrow> Inr (log @ [RenameColumn, Commit], d2))
         else Inr (log @ [Commit], d2))"

subsection \<open>\<^verbatim>\<open>add_event\<close>, \<^verbatim>\<open>get_events\<close>, \<^verbatim>\<open>add_attendee\<close>, \<^verbatim>\<open>get_attendance_data\<close>\<close>

definition add_event :: "string \<Rightarrow> string \<Rightarrow> string \<Rightarrow> string \<Rightarrow> db \<Rightarrow> error + db" where
  "add_event title event_date location topic d =
     (case insert_row [(''title'', PStr title), (''event_date'', PStr event_date),
                       (''location'', PStr location), (''topic'', PStr topic)] (events d) of
        Inl e \<Rightarrow> Inl e
      | Inr t \<Rightarrow> Inr (d\<lparr>events := t\<rparr>))"


definition add_attendee :: "int \<Rightarrow> string \<Rightarrow> string \<Rightarrow> string \<Rightarrow> db \<Rightarrow> error + db" where
  "add_attendee event_id name gender province d =
     (case insert_row [(''event_id'', PInt event_id), (''name'', PStr name),
                       (''gender'', PStr gender), (''province'', PStr province)] (attendees d) of
        Inl e \<Rightarrow> Inl e
      | Inr t \<Rightarrow> Inr (d\<lparr>attendees := t\<rparr>))"

text \<open>
  The join of \<^verbatim>\<open>attendees AS a\<close> with \<^verbatim>\<open>events AS e\<close> on \<^verbatim>\<open>a.event_id = e.id\<close>: every
  pair of an attendee row and an event row that satisfies the condition gives one
  record. The rows come attendee by attendee (SQL itself fixes no order).
\<close>

definition attendance_record :: "table \<Rightarrow> table \<Rightarrow> pyval list \<Rightarrow> pyval list \<Rightarrow> (string, pyval) pydict" where
  "attendance_record a e arow erow =
     [(''event_title'', cell e erow ''title''), (''event_date'', cell e erow ''event_date''),
      (''gender'', cell a arow ''gender''), (''province'', cell a arow ''province'')]"

definition get_attendance_data :: "db \<Rightarrow> error + (string, pyval) pydict list" where
  "get_attendance_data d =
     (case attendees d of
        None \<Rightarrow> Inl OperationalError
      | Some a \<Rightarrow>
          (case events d of
             None \<Rightarrow> Inl OperationalError
           | Some e \<Rightarrow>
               if list_ex (\<lambda>name. name \<notin> set (column_names e)) [''title'', ''event_date'', ''id'']
                  \<or> list_ex (\<lambda>name. name \<notin> set (column_names a)) [''gender'', ''province'', ''event_id'']
               then Inl OperationalError
               else Inr (concat (map (\<lambda>arow.
                      map (attendance_record a e arow)
                          (filter (\<lambda>erow. sql_eq (cell a arow ''event_id'') (cell e erow ''id''))
                                  (t_rows e)))
                      (t_rows a)))))"

text \<open>A run of \<^verbatim>\<open>add_event\<close> calls; the first call that raises ends it.\<close>

fun add_events :: "(string \<times> string \<times> string \<times> string) list \<Rightarrow> db \<Rightarrow> error + db" where
  "add_events [] d = Inr d"
| "add_events ((title, event_date, location, topic) # calls) d =
     (case add_event title event_date location topic d of
        Inl e \<Rightarrow> Inl e
      | Inr d' \<Rightarrow> add_events calls d')"

subsection \<open>Stores with the schema of \<^verbatim>\<open>init_db\<close>\<close>

text \<open>
  What the engine guarantees of a table created by \<^verbatim>\<open>init_db\<close>: it has the declared
  columns, every row has a value per column, the primary key \<^verbatim>\<open>id\<close> is an integer,
  unique, and never above the \<^verbatim>\<open>AUTOINCREMENT\<close> counter.
\<close>

definition table_ok :: "column list \<Rightarrow> table \<Rightarrow> bool" where
  "table_ok cols t =
     (t_cols t = cols \<and>
      list_all (\<lambda>row. length row = length cols) (t_rows t) \<and>
      distinct (map (\<lambda>row. cell t row ''id'') (t_rows t)) \<and>
      list_all (\<lambda>row. case cell t row ''id'' of PInt i \<Rightarrow> i \<le> t_seq t | _ \<Rightarrow> False) (t_rows t))"

definition std_store :: "db \<Rightarrow> bool" where
  "std_store d =
     (case events d of
        None \<Rightarrow> False
      | Some e \<Rightarrow>
          (case attendees d of
             None \<Rightarrow> False
           | Some a \<Rightarrow> table_ok events_schema e \<and> table_ok attendees_schema a))"

text \<open>The rows that the two inserts write into such tables.\<close>

definition event_row :: "int \<Rightarrow> string \<Rightarrow> string \<Rightarrow> string \<Rightarrow> string \<Rightarrow> pyval list" where
  "event_row i title event_date location topic =
     [PInt i, PStr title, PStr event_date, PStr location, PStr topic]"

definition attendee_row :: "int \<Rightarrow> int \<Rightarrow> string \<Rightarrow> string \<Rightarrow> string \<Rightarrow> pyval list" where
  "attendee_row i event_id name gender province =
     [PInt i, PInt event_id, PStr name, PStr gender, PStr province]"


text \<open>
  The renamed table, and the condition under which \<^verbatim>\<open>init_db\<close> attempts the rename,
  read on a table as \<^verbatim>\<open>PRAGMA table_info\<close> reports it.
\<close>

definition renamed :: "table \<Rightarrow> table" where
  "renamed tb = tb\<lparr>t_cols := map (\<lambda>c. if c_name c = ''date'' then c\<lparr>c_name := ''event_date''\<rparr> else c) (t_cols tb)\<rparr>"

definition legacy :: "table option \<Rightarrow> bool" where
  "legacy t = (''date'' \<in> set (table_info_names t) \<and> ''event_date'' \<notin> set (table_info_names t))"

text \<open>
  Two concrete databases: one with the schema of \<^verbatim>\<open>init_db\<close>, two events and three
  attendees, the second of them registered for an event id that no event has; and one
  left by an earlier version, whose events table still has the column \<^verbatim>\<open>date\<close>.
\<close>

definition demo_store :: db where
  "demo_store =
     \<lparr>events = Some \<lparr>t_cols = events_schema,
                        t_rows = [event_row 1 ''Soil Health Day'' ''2024-03-01'' ''Nairobi'' ''soil'',
                                  event_row 2 ''Field Day'' ''2024-04-01'' ''Kiambu'' []],
                        t_seq = 2\<rparr>,
      attendees = Some \<lparr>t_cols = attendees_schema,
                           t_rows = [attendee_row 1 1 ''Amina'' ''Female'' ''Nairobi'',
                                     attendee_row 2 7 [] ''Other'' [],
                                     attendee_row 3 1 ''Kofi'' ''Male'' ''Kiambu''],
                           t_seq = 3\<rparr>\<rparr>"

definition legacy_store :: db where
  "legacy_store =
     \<lparr>events = Some \<lparr>t_cols = [col ''id'' False True, col ''title'' True False,
                                  col ''date'' True False],
                        t_rows = [[PInt 1, PStr ''Old'', PStr ''2023-01-01'']],
                        t_seq = 1\<rparr>,
      attendees = None\<rparr>"

text \<open>
  The values that the writer can convert, the text it writes for one, and the line
  that \<^verbatim>\<open>writerows\<close> writes for one accepted record.
\<close>

definition printable :: "pyval \<Rightarrow> bool" where
  "printable v = (case v of PInt i \<Rightarrow> str_fits i | _ \<Rightarrow> True)"

fun field_text :: "pyval \<Rightarrow> string" where
  "field_text PNone = []"
| "field_text (PStr s) = s"
| "field_text (PInt i) = str_int i"

definition data_row :: "string list \<Rightarrow> (string, pyval) pydict \<Rightarrow> string" where
  "data_row fieldnames r = csv_writerow (map (\<lambda>key. field_text (dict_get r key (PStr []))) fieldnames)"

section \<open>The exporter's CSV text\<close>

lemma dict_to_list_accepts:
  "set (keys r) \<subseteq> set fieldnames \<Longrightarrow>
   dict_to_list fieldnames r = Inr (map (\<lambda>key. dict_get r key (PStr [])) fieldnames)"
  by (auto simp: dict_to_list_def filter_empty_conv)

lemma dict_to_list_rejects:
  "\<not> set (keys r) \<subseteq> set fieldnames \<Longrightarrow> dict_to_list fieldnames r = Inl ValueError"
  by (auto simp: dict_to_list_def filter_empty_conv)

lemma csv_text_printable: "printable v \<Longrightarrow> csv_text v = Inr (field_text v)"
  by (cases v) (simp_all add: printable_def)

lemma csv_text_error: "csv_text v = Inl e \<Longrightarrow> e = ValueError"
  by (cases v) (simp_all split: if_splits)

lemma convert_fields_printable:
  "\<forall>v \<in> set vs. printable v \<Longrightarrow> convert_fields vs = Inr (map field_text vs)"
  by (induction vs) (simp_all add: csv_text_printable)

lemma convert_fields_error: "convert_fields vs = Inl e \<Longrightarrow> e = ValueError"
  by (induction vs) (auto split: sum.splits dest: csv_text_error)

lemma dict_get_printable:
  "\<forall>v \<in> snd ` set r. printable v \<Longrightarrow> printable (dict_get r key (PStr []))"
proof (cases "map_of r key")
  case None
  then show ?thesis by (simp add: dict_get_def printable_def)
next
  case (Some v)
  assume all: "\<forall>v \<in> snd ` set r. printable v"
  from Some have "(key, v) \<in> set r" by (rule map_of_SomeD)
  then have "v \<in> snd ` set r" by force
  with all have "printable v" by blast
  with Some show ?thesis by (simp add: dict_get_def)
qed

lemma writerows_error: "writerows fieldnames rs = Inl e \<Longrightarrow> e = ValueError"
proof (induction rs)
  case Nil
  then show ?case by simp
next
  case (Cons r rs)
  then show ?case
    by (auto simp: dict_to_list_def Let_def split: sum.splits if_splits dest: convert_fields_error)
qed

lemma writerows_accepts:
  "\<forall>r \<in> set rs. set (keys r) \<subseteq> set fieldnames \<and> (\<forall>v \<in> snd ` set r. printable v) \<Longrightarrow>
   writerows fieldnames rs = Inr (concat (map (data_row fieldnames) rs))"
proof (induction rs)
  case Nil
  then show ?case by simp
next
  case (Cons r rs)
  then have k: "set (keys r) \<subseteq> set fieldnames" and p: "\<forall>v \<in> snd ` set r. printable v"
    and rest: "writerows fieldnames rs = Inr (concat (map (data_row fieldnames) rs))"
    by simp_all
  have "\<forall>v \<in> set (map (\<lambda>key. dict_get r key (PStr [])) fieldnames). printable v"
    using dict_get_printable [OF p] by simp
  then have "convert_fields (map (\<lambda>key. dict_get r key (PStr [])) fieldnames) =
      Inr (map field_text (map (\<lambda>key. dict_get r key (PStr [])) fieldnames))"
    by (rule convert_fields_printable)
  moreover have "csv_writerow (map field_text (map (\<lambda>key. dict_get r key (PStr [])) fieldnames)) =
      data_row fieldnames r"
    by (simp add: data_row_def o_def)
  ultimately show ?case
    using rest by (simp add: dict_to_list_accepts [OF k])
qed

lemma writerows_rejects:
  "\<exists>r \<in> set rs. \<not> set (keys r) \<subseteq> set fieldnames \<Longrightarrow>
   writerows fieldnames rs = Inl ValueError"
proof (induction rs)
  case Nil
  then show ?case by simp
next
  case (Cons r rs)
  show ?case
  proof (cases "writerows fieldnames (r # rs)")
    case (Inl e)
    then show ?thesis using writerows_error by blast
  next
    case (Inr out)
    then have k: "set (keys r) \<subseteq> set fieldnames"
      using dict_to_list_rejects [of r fieldnames] by (cases "set (keys r) \<subseteq> set fieldnames") simp_all
    from Inr obtain out' where "writerows fieldnames rs = Inr out'"
      by (auto split: sum.splits)
    moreover from Cons.prems k have "\<exists>r \<in> set rs. \<not> set (keys r) \<subseteq> set fieldnames" by auto
    then have "writerows fieldnames rs = Inl ValueError" by (rule Cons.IH)
    ultimately show ?thesis by simp
  qed
qed



lemma export_csv_Cons:
  "export_csv (first # rest) =
     (case writerows (keys first) (first # rest) of
        Inl e \<Rightarrow> Inl e
      | Inr body \<Rightarrow> Inr (writeheader (keys first) @ body))"
  by (simp add: export_csv_def Let_def del: writerows.simps)

lemma str_fits_small: "\<bar>i\<bar> < 10 ^ n \<Longrightarrow> n \<le> int_max_str_digits \<Longrightarrow> str_fits i"
proof -
  assume a: "\<bar>i\<bar> < 10 ^ n" and n: "n \<le> int_max_str_digits"
  from n have "(10 :: int) ^ n \<le> 10 ^ int_max_str_digits"
    by (intro power_increasing) simp_all
  with a show ?thesis
    unfolding str_fits_def by (rule less_le_trans)
qed

text \<open>An \<^verbatim>\<open>int\<close> of 4301 digits in a record makes the call raise, whatever the keys.\<close>

lemma export_csv_long_int_raises:
  "export_csv [[(''a'', PInt (10 ^ int_max_str_digits))]] = Inl ValueError"
  by (simp add: export_csv_def keys_def dict_to_list_def dict_get_def str_fits_def)




text \<open>
  C10 (as amended). For every non-empty list of records, if some record after the first
  has a key that is not among the first record's keys, \<^verbatim>\<open>export_csv\<close> raises
  (\<^verbatim>\<open>ValueError\<close>) instead of returning CSV text; so a call that returns has every
  record's keys among the first record's keys. Equal key sets are not needed: when every
  record's keys are among the first record's keys, also when a record lacks some of
  them, and no value is an \<^verbatim>\<open>int\<close> of more than 4300 digits, the call returns CSV text.
\<close>

theorem export_csv_key_containment:
  "((\<exists>r \<in> set rest. \<not> set (keys r) \<subseteq> set (keys first)) \<longrightarrow>
      export_csv (first # rest) = Inl ValueError) \<and>
   ((\<exists>text. export_csv (first # rest) = Inr text) \<longrightarrow>
      (\<forall>r \<in> set rest. set (keys r) \<subseteq> set (keys first))) \<and>
   ((\<forall>r \<in> set rest. set (keys r) \<subseteq> set (keys first)) \<and>
    (\<forall>r \<in> set (first # rest). \<forall>v \<in> snd ` set r. printable v) \<longrightarrow>
      (\<exists>text. export_csv (first # rest) = Inr text))"
proof -
  have raises: "export_csv (first # rest) = Inl ValueError"
    if "\<exists>r \<in> set rest. \<not> set (keys r) \<subseteq> set (keys first)"
  proof -
    from that have "\<exists>r \<in> set (first # rest). \<not> set (keys r) \<subseteq> set (keys first)" by simp
    then have "writerows (keys first) (first # rest) = Inl ValueError" by (rule writerows_rejects)
    then show ?thesis by (simp only: export_csv_Cons sum.case)
  qed
  have returns: "\<exists>text. export_csv (first # rest) = Inr text"
    if "\<forall>r \<in> set rest. set (keys r) \<subseteq> set (keys first)"
      and "\<forall>r \<in> set (first # rest). \<forall>v \<in> snd ` set r. printable v"
  proof -
    from that have "\<forall>r \<in> set (first # rest). set (keys r) \<subseteq> set (keys first) \<and>
        (\<forall>v \<in> snd ` set r. printable v)"
      by simp
    then have "writerows (keys first) (first # rest) =
        Inr (concat (map (data_row (keys first)) (first # rest)))"
      by (rule writerows_accepts)
    then show ?thesis by (simp only: export_csv_Cons sum.case) simp
  qed
  from raises have "\<forall>r \<in> set rest. set (keys r) \<subseteq> set (keys first)"
    if "\<exists>text. export_csv (first # rest) = Inr text"
    using that by force
  with raises returns show ?thesis by blast
qed

text \<open>
  The claim of C10 as it stands fails: a record that only lacks a key of the first
  record is not uniform with it, and the call returns.
\<close>

theorem export_csv_missing_key_returns:
  "set (keys [(''a'', PStr ''3'')]) \<noteq> set (keys [(''a'', PStr ''1''), (''b'', PStr ''2'')]) \<and>
   export_csv [[(''a'', PStr ''1''), (''b'', PStr ''2'')], [(''a'', PStr ''3'')]] =
     Inr (''a,b'' @ [CHR 0x0D, CHR 0x0A] @ ''1,2'' @ [CHR 0x0D, CHR 0x0A] @
          ''3,'' @ [CHR 0x0D, CHR 0x0A])"
proof
  show "set (keys [(''a'', PStr ''3'')]) \<noteq> set (keys [(''a'', PStr ''1''), (''b'', PStr ''2'')])"
    by (simp add: keys_def)
  show "export_csv [[(''a'', PStr ''1''), (''b'', PStr ''2'')], [(''a'', PStr ''3'')]] =
     Inr (''a,b'' @ [CHR 0x0D, CHR 0x0A] @ ''1,2'' @ [CHR 0x0D, CHR 0x0A] @
          ''3,'' @ [CHR 0x0D, CHR 0x0A])"
    by code_simp
qed

theorem export_csv_key_containment_witness:
  "export_csv [[(''a'', PStr ''1'')], [(''a'', PStr ''2''), (''c'', PStr ''3'')]] = Inl ValueError \<and>
   set (keys [(''b'', PInt 3)]) \<subseteq> set (keys [(''a'', PStr ''1''), (''b'', PStr ''2'')]) \<and>
   (\<exists>text. export_csv [[(''a'', PStr ''1''), (''b'', PStr ''2'')], [(''b'', PInt 3)]] = Inr text)"
proof (intro conjI)
  show "export_csv [[(''a'', PStr ''1'')], [(''a'', PStr ''2''), (''c'', PStr ''3'')]] = Inl ValueError"
    using export_csv_key_containment [of "[[(''a'', PStr ''2''), (''c'', PStr ''3'')]]" "[(''a'', PStr ''1'')]",
        THEN conjunct1]
    by (simp add: keys_def)
  show "set (keys [(''b'', PInt 3)]) \<subseteq> set (keys [(''a'', PStr ''1''), (''b'', PStr ''2'')])"
    by (simp add: keys_def)
  have "printable (PInt 3)" "printable (PStr ''1'')" "printable (PStr ''2'')"
    using str_fits_small [of 3 1] by (simp_all add: printable_def int_max_str_digits_def)
  then show "\<exists>text. export_csv [[(''a'', PStr ''1''), (''b'', PStr ''2'')], [(''b'', PInt 3)]] = Inr text"
    using export_csv_key_containment [of "[[(''b'', PInt 3)]]" "[(''a'', PStr ''1''), (''b'', PStr ''2'')]",
        THEN conjunct2, THEN conjunct2]
    by (simp add: keys_def)
qed

section \<open>Frequency counts and the table\<close>

lemma keys_dict_set:
  "keys (dict_set k v d) = (if k \<in> set (keys d) then keys d else keys d @ [k])"
  by (induction d) (auto simp: keys_def rev_image_eqI)

lemma map_of_dict_set: "map_of (dict_set k v d) = (map_of d)(k \<mapsto> v)"
  by (induction d) (auto simp: fun_eq_iff)

lemma keys_count_elem:
  "keys (count_elem x d) = (if x \<in> set (keys d) then keys d else keys d @ [x])"
  by (simp add: count_elem_def keys_dict_set)

lemma remdups_snoc: "remdups (ys @ [x]) = filter (\<lambda>y. y \<noteq> x) (remdups ys) @ [x]"
  by (induction ys) auto

lemma first_seen_Cons:
  "rev (remdups (rev (x # xs))) = x # filter (\<lambda>y. y \<noteq> x) (rev (remdups (rev xs)))"
  by (simp add: remdups_snoc rev_filter)

lemma keys_fold_count:
  "keys (fold count_elem xs d) =
     keys d @ filter (\<lambda>x. x \<notin> set (keys d)) (rev (remdups (rev xs)))"
proof (induction xs arbitrary: d)
  case Nil
  then show ?case by simp
next
  case (Cons x xs)
  have "keys (fold count_elem (x # xs) d) = keys (fold count_elem xs (count_elem x d))"
    by simp
  also have "\<dots> = keys (count_elem x d) @
      filter (\<lambda>y. y \<notin> set (keys (count_elem x d))) (rev (remdups (rev xs)))"
    by (rule Cons.IH)
  also have "\<dots> = keys d @ filter (\<lambda>y. y \<notin> set (keys d)) (rev (remdups (rev (x # xs))))"
    unfolding first_seen_Cons keys_count_elem
    by (auto intro: filter_cong)
  finally show ?case .
qed

lemma dict_get_count_elem:
  "dict_get (count_elem x d) k 0 = dict_get d k 0 + (if k = x then 1 else 0)"
  by (simp add: count_elem_def dict_get_def map_of_dict_set)

lemma dict_get_fold_count:
  "dict_get (fold count_elem xs d) k 0 = dict_get d k 0 + int (count_list xs k)"
  by (induction xs arbitrary: d) (auto simp: dict_get_count_elem)

lemma dict_get_keys: "k \<in> set (keys d) \<Longrightarrow> map_of d k = Some (dict_get d k dflt)"
  by (auto simp: dict_get_def keys_def map_of_eq_None_iff split: option.splits)

lemma dict_get_Counter: "dict_get (Counter xs) k 0 = int (count_list xs k)"
  unfolding Counter_def dict_get_fold_count by (simp add: dict_get_def)

lemma fold_count_single:
  "fold count_elem (replicate n v) [(v, c)] = [(v, c + int n)]"
  by (induction n arbitrary: c) (simp_all add: count_elem_def dict_get_def)

text \<open>
  C3. The count over a projected field, \<^verbatim>\<open>Counter(keyFn(item) for item in records)\<close>: its
  keys are the distinct values in the order in which each is first seen, the count of
  a key is the number of its occurrences, and no other key is present. Over the empty
  sequence it is the empty mapping; over \<open>n\<close> occurrences of one value \<open>v\<close> and nothing
  else it is \<^verbatim>\<open>{v: n}\<close> (the empty mapping when \<open>n\<close> is 0).
\<close>

theorem Counter_counts:
  "keys (Counter (map keyFn records)) = rev (remdups (rev (map keyFn records))) \<and>
   distinct (keys (Counter (map keyFn records))) \<and>
   map_of (Counter (map keyFn records)) k =
     (if k \<in> keyFn ` set records then Some (int (count_list (map keyFn records) k)) else None) \<and>
   Counter (map keyFn []) = [] \<and>
   Counter (replicate n v) = (if n = 0 then [] else [(v, int n)])"
proof -
  let ?xs = "map keyFn records"
  have k: "keys (Counter ?xs) = rev (remdups (rev ?xs))"
    unfolding Counter_def keys_fold_count by (simp add: keys_def)
  have d: "distinct (keys (Counter ?xs))"
    unfolding k by simp
  have m: "map_of (Counter ?xs) k =
     (if k \<in> keyFn ` set records then Some (int (count_list ?xs k)) else None)"
  proof (cases "k \<in> keyFn ` set records")
    case True
    then have "k \<in> set (keys (Counter ?xs))" unfolding k by simp
    then have "map_of (Counter ?xs) k = Some (dict_get (Counter ?xs) k 0)"
      by (rule dict_get_keys)
    with True show ?thesis by (simp add: dict_get_Counter)
  next
    case False
    then have "k \<notin> set (keys (Counter ?xs))" unfolding k by simp
    then have "map_of (Counter ?xs) k = None"
      by (simp add: keys_def map_of_eq_None_iff)
    with False show ?thesis by simp
  qed
  have e: "Counter (map keyFn []) = []"
    by (simp add: Counter_def)
  have r: "Counter (replicate n v) = (if n = 0 then [] else [(v, int n)])"
  proof (cases n)
    case 0
    then show ?thesis by (simp add: Counter_def)
  next
    case (Suc m)
    with fold_count_single [of m v 1] show ?thesis
      by (simp add: Counter_def count_elem_def dict_get_def)
  qed
  from k d m e r show ?thesis by blast
qed



section \<open>Inserts into a store with the schema of \<^verbatim>\<open>init_db\<close>\<close>

lemma insert_event_row:
  "t_cols e = events_schema \<Longrightarrow>
   insert_row [(''title'', PStr title), (''event_date'', PStr event_date),
               (''location'', PStr location), (''topic'', PStr topic)] (Some e) =
   Inr (Some (e\<lparr>t_rows := t_rows e @ [event_row (t_seq e + 1) title event_date location topic],
               t_seq := t_seq e + 1\<rparr>))"
  by (simp add: insert_row_def new_row_def column_names_def events_schema_def col_def keys_def
      fits_int64_def event_row_def)

lemma insert_attendee_row:
  "t_cols a = attendees_schema \<Longrightarrow> fits_int64 (PInt event_id) \<Longrightarrow>
   insert_row [(''event_id'', PInt event_id), (''name'', PStr name),
               (''gender'', PStr gender), (''province'', PStr province)] (Some a) =
   Inr (Some (a\<lparr>t_rows := t_rows a @ [attendee_row (t_seq a + 1) event_id name gender province],
               t_seq := t_seq a + 1\<rparr>))"
  by (simp add: insert_row_def new_row_def column_names_def attendees_schema_def col_def keys_def
      attendee_row_def) (simp add: fits_int64_def)

lemma cell_events:
  assumes "t_cols e = events_schema"
  shows "cell e [a, b, c, d, f] ''id'' = a" "cell e [a, b, c, d, f] ''title'' = b"
    "cell e [a, b, c, d, f] ''event_date'' = c" "cell e [a, b, c, d, f] ''location'' = d"
    "cell e [a, b, c, d, f] ''topic'' = f"
  using assms by (simp_all add: cell_def column_names_def events_schema_def col_def dict_get_def)

lemma cell_attendees:
  assumes "t_cols t = attendees_schema"
  shows "cell t [a, b, c, d, f] ''id'' = a" "cell t [a, b, c, d, f] ''event_id'' = b"
    "cell t [a, b, c, d, f] ''name'' = c" "cell t [a, b, c, d, f] ''gender'' = d"
    "cell t [a, b, c, d, f] ''province'' = f"
  using assms by (simp_all add: cell_def column_names_def attendees_schema_def col_def dict_get_def)

lemma cell_cols_cong: "t_cols t' = t_cols t \<Longrightarrow> cell t' row name = cell t row name"
  by (simp add: cell_def column_names_def)


lemma table_ok_append:
  assumes ok: "table_ok cols t" and len: "length row = length cols"
    and id: "cell t row ''id'' = PInt (t_seq t + 1)"
  shows "table_ok cols (t\<lparr>t_rows := t_rows t @ [row], t_seq := t_seq t + 1\<rparr>)"
proof -
  let ?t' = "t\<lparr>t_rows := t_rows t @ [row], t_seq := t_seq t + 1\<rparr>"
  have c: "cell ?t' r n = cell t r n" for r n
    by (rule cell_cols_cong) simp
  have bound: "\<exists>i. cell t r ''id'' = PInt i \<and> i \<le> t_seq t" if "r \<in> set (t_rows t)" for r
  proof -
    from ok that have "case cell t r ''id'' of PInt i \<Rightarrow> i \<le> t_seq t | _ \<Rightarrow> False"
      by (simp add: table_ok_def list_all_iff)
    then show ?thesis by (cases "cell t r ''id''") auto
  qed
  then have fresh: "PInt (t_seq t + 1) \<notin> (\<lambda>r. cell t r ''id'') ` set (t_rows t)"
    by fastforce
  have "case cell t r ''id'' of PInt i \<Rightarrow> i \<le> t_seq ?t' | _ \<Rightarrow> False"
    if "r \<in> set (t_rows t)" for r
    using bound [OF that] by auto
  with ok len id fresh show ?thesis
    by (simp add: table_ok_def list_all_iff c)
qed

lemma add_event_std:
  assumes "events d = Some e" and "table_ok events_schema e"
  shows "add_event title event_date location topic d =
     Inr (d\<lparr>events := Some (e\<lparr>t_rows := t_rows e @ [event_row (t_seq e + 1) title event_date location topic],
                               t_seq := t_seq e + 1\<rparr>)\<rparr>)"
    and "table_ok events_schema
           (e\<lparr>t_rows := t_rows e @ [event_row (t_seq e + 1) title event_date location topic],
              t_seq := t_seq e + 1\<rparr>)"
proof -
  from assms(2) have cols: "t_cols e = events_schema"
    by (simp add: table_ok_def)
  with assms(1) show "add_event title event_date location topic d =
     Inr (d\<lparr>events := Some (e\<lparr>t_rows := t_rows e @ [event_row (t_seq e + 1) title event_date location topic],
                               t_seq := t_seq e + 1\<rparr>)\<rparr>)"
    by (simp add: add_event_def insert_event_row)
  show "table_ok events_schema
           (e\<lparr>t_rows := t_rows e @ [event_row (t_seq e + 1) title event_date location topic],
              t_seq := t_seq e + 1\<rparr>)"
    using assms(2)
  proof (rule table_ok_append)
    show "length (event_row (t_seq e + 1) title event_date location topic) = length events_schema"
      by (simp add: event_row_def events_schema_def)
    show "cell e (event_row (t_seq e + 1) title event_date location topic) ''id'' = PInt (t_seq e + 1)"
      by (simp add: event_row_def cell_events [OF cols])
  qed
qed

lemma add_attendee_std:
  assumes "attendees d = Some a" and "table_ok attendees_schema a" and "fits_int64 (PInt event_id)"
  shows "add_attendee event_id name gender province d =
     Inr (d\<lparr>attendees := Some (a\<lparr>t_rows := t_rows a @ [attendee_row (t_seq a + 1) event_id name gender province],
                                  t_seq := t_seq a + 1\<rparr>)\<rparr>)"
    and "table_ok attendees_schema
           (a\<lparr>t_rows := t_rows a @ [attendee_row (t_seq a + 1) event_id name gender province],
              t_seq := t_seq a + 1\<rparr>)"
proof -
  from assms(2) have cols: "t_cols a = attendees_schema"
    by (simp add: table_ok_def)
  with assms(1,3) show "add_attendee event_id name gender province d =
     Inr (d\<lparr>attendees := Some (a\<lparr>t_rows := t_rows a @ [attendee_row (t_seq a + 1) event_id name gender province],
                                  t_seq := t_seq a + 1\<rparr>)\<rparr>)"
    by (simp add: add_attendee_def insert_attendee_row)
  show "table_ok attendees_schema
           (a\<lparr>t_rows := t_rows a @ [attendee_row (t_seq a + 1) event_id name gender province],
              t_seq := t_seq a + 1\<rparr>)"
    using assms(2)
  proof (rule table_ok_append)
    show "length (attendee_row (t_seq a + 1) event_id name gender province) = length attendees_schema"
      by (simp add: attendee_row_def attendees_schema_def)
    show "cell a (attendee_row (t_seq a + 1) event_id name gender province) ''id'' = PInt (t_seq a + 1)"
      by (simp add: attendee_row_def cell_attendees [OF cols])
  qed
qed


lemma init_db_empty:
  "init_db accepted empty_db =
     Inr ([CreateEvents, CreateAttendees, TableInfo, Commit],
          \<lparr>events = Some \<lparr>t_cols = events_schema, t_rows = [], t_seq = 0\<rparr>,
           attendees = Some \<lparr>t_cols = attendees_schema, t_rows = [], t_seq = 0\<rparr>\<rparr>)"
  by (simp add: init_db_def empty_db_def create_table_if_not_exists_def table_info_names_def
      column_names_def events_schema_def col_def)

lemma table_ok_fresh: "table_ok cols \<lparr>t_cols = cols, t_rows = [], t_seq = 0\<rparr>"
  by (simp add: table_ok_def)





text \<open>
  The stores with the schema of \<^verbatim>\<open>init_db\<close> are the ones the program works on:
  \<^verbatim>\<open>init_db\<close> makes one of the empty database, and both inserts keep one.
\<close>

lemma std_store_init: "init_db accepted empty_db = Inr (tr, d) \<Longrightarrow> std_store d"
  by (auto simp: init_db_empty std_store_def table_ok_fresh)

lemma std_store_add_event:
  assumes "std_store d"
  shows "\<exists>d'. add_event title event_date location topic d = Inr d' \<and> std_store d'"
proof -
  from assms obtain e a where ev: "events d = Some e" and at: "attendees d = Some a"
    and oke: "table_ok events_schema e" and oka: "table_ok attendees_schema a"
    by (auto simp: std_store_def split: option.splits)
  from add_event_std [OF ev oke, of title event_date location topic] at oka show ?thesis
    by (simp add: std_store_def)
qed

lemma std_store_add_attendee:
  assumes "std_store d" and "add_attendee event_id name gender province d = Inr d'"
  shows "std_store d'"
proof -
  from assms(1) obtain e a where ev: "events d = Some e" and at: "attendees d = Some a"
    and oke: "table_ok events_schema e" and oka: "table_ok attendees_schema a"
    by (auto simp: std_store_def split: option.splits)
  have fits: "fits_int64 (PInt event_id)"
  proof (rule ccontr)
    assume "\<not> fits_int64 (PInt event_id)"
    with at oka have "add_attendee event_id name gender province d = Inl OverflowError"
      by (simp add: add_attendee_def insert_row_def table_ok_def column_names_def keys_def
          attendees_schema_def col_def)
    with assms(2) show False by simp
  qed
  from add_attendee_std [OF at oka fits, of name gender province] assms(2) ev oke show ?thesis
    by (auto simp: std_store_def)
qed


text \<open>The first of the two concrete databases is what a run of the program leaves.\<close>

lemma demo_store_reached:
  "(case init_db True empty_db of
      Inl e \<Rightarrow> Inl e
    | Inr (tr, d0) \<Rightarrow>
        (case add_events [(''Soil Health Day'', ''2024-03-01'', ''Nairobi'', ''soil''),
                          (''Field Day'', ''2024-04-01'', ''Kiambu'', [])] d0 of
           Inl e \<Rightarrow> Inl e
         | Inr d1 \<Rightarrow>
             (case add_attendee 1 ''Amina'' ''Female'' ''Nairobi'' d1 of
                Inl e \<Rightarrow> Inl e
              | Inr d2 \<Rightarrow>
                  (case add_attendee 7 [] ''Other'' [] d2 of
                     Inl e \<Rightarrow> Inl e
                   | Inr d3 \<Rightarrow> add_attendee 1 ''Kofi'' ''Male'' ''Kiambu'' d3)))) =
   Inr demo_store"
  by code_simp

section \<open>Events added and read back\<close>


section \<open>The attendance join\<close>

lemma filter_unique:
  "distinct (map f xs) \<Longrightarrow>
   filter (\<lambda>x. f x = v) xs = (case find (\<lambda>x. f x = v) xs of None \<Rightarrow> [] | Some x \<Rightarrow> [x])"
proof (induction xs)
  case Nil
  then show ?case by simp
next
  case (Cons x xs)
  show ?case
  proof (cases "f x = v")
    case True
    with Cons.prems have "\<forall>y \<in> set xs. f y \<noteq> v" by (auto simp: image_iff)
    then have "filter (\<lambda>x. f x = v) xs = []" by (simp add: filter_empty_conv)
    with True show ?thesis by simp
  next
    case False
    with Cons show ?thesis by simp
  qed
qed

lemma filter_removeAll_other: "\<not> P x \<Longrightarrow> filter P (removeAll x xs) = filter P xs"
  by (induction xs) auto

lemma get_attendance_data_std:
  assumes "events d = Some e" "attendees d = Some a"
    and "t_cols e = events_schema" "t_cols a = attendees_schema"
  shows "get_attendance_data d =
     Inr (concat (map (\<lambda>arow.
            map (attendance_record a e arow)
                (filter (\<lambda>erow. sql_eq (cell a arow ''event_id'') (cell e erow ''id'')) (t_rows e)))
          (t_rows a)))"
  using assms
  by (simp add: get_attendance_data_def column_names_def events_schema_def attendees_schema_def col_def)

lemma sql_eq_id:
  assumes "table_ok cols e" "erow \<in> set (t_rows e)"
  shows "sql_eq x (cell e erow ''id'') = (cell e erow ''id'' = x)"
proof -
  from assms have "case cell e erow ''id'' of PInt i \<Rightarrow> i \<le> t_seq e | _ \<Rightarrow> False"
    by (simp add: table_ok_def list_all_iff)
  then show ?thesis
    by (cases "cell e erow ''id''") (auto simp: sql_eq_def)
qed

lemma join_without_event:
  assumes ev: "events d = Some e" and at: "attendees d = Some a"
    and ce: "t_cols e = events_schema" and ca: "t_cols a = attendees_schema"
    and none: "\<forall>arow \<in> set (t_rows a). cell a arow ''event_id'' \<noteq> cell e erow ''id''"
  shows "get_attendance_data (d\<lparr>events := Some (e\<lparr>t_rows := removeAll erow (t_rows e)\<rparr>)\<rparr>) =
      get_attendance_data d"
proof -
  let ?e' = "e\<lparr>t_rows := removeAll erow (t_rows e)\<rparr>"
  let ?d' = "d\<lparr>events := Some ?e'\<rparr>"
  let ?P = "\<lambda>arow x. sql_eq (cell a arow ''event_id'') (cell e x ''id'')"
  have c: "cell ?e' r n = cell e r n" for r n
    by (rule cell_cols_cong) simp
  have r: "attendance_record a ?e' = attendance_record a e"
    by (simp add: attendance_record_def fun_eq_iff c)
  have one: "map (attendance_record a e arow) (filter (?P arow) (removeAll erow (t_rows e))) =
        map (attendance_record a e arow) (filter (?P arow) (t_rows e))"
    if "arow \<in> set (t_rows a)" for arow
  proof -
    from none that have "\<not> ?P arow erow"
      by (auto simp: sql_eq_def)
    then show ?thesis
      by (simp add: filter_removeAll_other)
  qed
  have all: "map (\<lambda>arow. map (attendance_record a e arow) (filter (?P arow) (removeAll erow (t_rows e))))
          (t_rows a) =
        map (\<lambda>arow. map (attendance_record a e arow) (filter (?P arow) (t_rows e))) (t_rows a)"
    by (rule map_cong [OF refl]) (rule one)
  have "get_attendance_data ?d' =
       Inr (concat (map (\<lambda>arow.
            map (attendance_record a ?e' arow)
                (filter (\<lambda>x. sql_eq (cell a arow ''event_id'') (cell ?e' x ''id'')) (t_rows ?e')))
          (t_rows a)))"
    by (rule get_attendance_data_std) (simp_all add: at ce ca)
  also have "\<dots> = Inr (concat (map (\<lambda>arow. map (attendance_record a e arow)
          (filter (?P arow) (removeAll erow (t_rows e)))) (t_rows a)))"
    unfolding r c by simp
  also have "\<dots> = get_attendance_data d"
    unfolding all by (rule get_attendance_data_std [OF ev at ce ca, symmetric])
  finally show ?thesis .
qed

text \<open>
  C2. In a store with the schema of \<^verbatim>\<open>init_db\<close>, \<^verbatim>\<open>get_attendance_data\<close> is the inner
  join of attendees to events on the event id: going through the stored attendees, an
  attendee whose \<^verbatim>\<open>event_id\<close> is the id of a stored event gives exactly one record, made
  of that event's title and date and the attendee's gender and province, and an
  attendee whose \<^verbatim>\<open>event_id\<close> is no event's id gives none. An event that no attendee
  refers to contributes nothing: without it the result is the same.
\<close>

theorem get_attendance_data_inner_join:
  "std_store d \<and> events d = Some e \<and> attendees d = Some a \<longrightarrow>
   get_attendance_data d =
     Inr (concat (map (\<lambda>arow.
            case find (\<lambda>erow. cell e erow ''id'' = cell a arow ''event_id'') (t_rows e) of
              None \<Rightarrow> []
            | Some erow \<Rightarrow> [attendance_record a e arow erow])
          (t_rows a))) \<and>
   attendance_record a e (attendee_row i event_id name gender province)
       (event_row event_id title event_date location topic) =
     [(''event_title'', PStr title), (''event_date'', PStr event_date),
      (''gender'', PStr gender), (''province'', PStr province)] \<and>
   ((\<forall>arow \<in> set (t_rows a). cell a arow ''event_id'' \<noteq> cell e erow ''id'') \<longrightarrow>
      get_attendance_data (d\<lparr>events := Some (e\<lparr>t_rows := removeAll erow (t_rows e)\<rparr>)\<rparr>) =
      get_attendance_data d)"
proof (intro impI)
  assume asm: "std_store d \<and> events d = Some e \<and> attendees d = Some a"
  then have ev: "events d = Some e" and at: "attendees d = Some a"
    by simp_all
  with asm have oke: "table_ok events_schema e" and oka: "table_ok attendees_schema a"
    by (simp_all add: std_store_def)
  from oke oka have ce: "t_cols e = events_schema" and ca: "t_cols a = attendees_schema"
    and dist: "distinct (map (\<lambda>erow. cell e erow ''id'') (t_rows e))"
    by (simp_all add: table_ok_def)
  have flt: "filter (\<lambda>erow. sql_eq v (cell e erow ''id'')) (t_rows e) =
      (case find (\<lambda>erow. cell e erow ''id'' = v) (t_rows e) of None \<Rightarrow> [] | Some erow \<Rightarrow> [erow])" for v
  proof -
    have "filter (\<lambda>erow. sql_eq v (cell e erow ''id'')) (t_rows e) =
        filter (\<lambda>erow. cell e erow ''id'' = v) (t_rows e)"
      by (rule filter_cong) (simp_all add: sql_eq_id [OF oke])
    with filter_unique [OF dist, of v] show ?thesis by simp
  qed
  have join: "get_attendance_data d =
     Inr (concat (map (\<lambda>arow.
            case find (\<lambda>erow. cell e erow ''id'' = cell a arow ''event_id'') (t_rows e) of
              None \<Rightarrow> []
            | Some erow \<Rightarrow> [attendance_record a e arow erow])
          (t_rows a)))"
  proof -
    have "map (attendance_record a e arow)
            (filter (\<lambda>erow. sql_eq (cell a arow ''event_id'') (cell e erow ''id'')) (t_rows e)) =
          (case find (\<lambda>erow. cell e erow ''id'' = cell a arow ''event_id'') (t_rows e) of
              None \<Rightarrow> []
            | Some erow \<Rightarrow> [attendance_record a e arow erow])" for arow
      unfolding flt by (simp split: option.split)
    then show ?thesis
      by (simp only: get_attendance_data_std [OF ev at ce ca])
  qed
  have proj: "attendance_record a e (attendee_row i event_id name gender province)
       (event_row event_id title event_date location topic) =
     [(''event_title'', PStr title), (''event_date'', PStr event_date),
      (''gender'', PStr gender), (''province'', PStr province)]"
    by (simp add: attendance_record_def attendee_row_def event_row_def
        cell_events [OF ce] cell_attendees [OF ca])
  have gone: "get_attendance_data (d\<lparr>events := Some (e\<lparr>t_rows := removeAll erow (t_rows e)\<rparr>)\<rparr>) =
      get_attendance_data d"
    if "\<forall>arow \<in> set (t_rows a). cell a arow ''event_id'' \<noteq> cell e erow ''id''"
    using ev at ce ca that by (rule join_without_event)
  from join proj gone show "get_attendance_data d =
     Inr (concat (map (\<lambda>arow.
            case find (\<lambda>erow. cell e erow ''id'' = cell a arow ''event_id'') (t_rows e) of
              None \<Rightarrow> []
            | Some erow \<Rightarrow> [attendance_record a e arow erow])
          (t_rows a))) \<and>
   attendance_record a e (attendee_row i event_id name gender province)
       (event_row event_id title event_date location topic) =
     [(''event_title'', PStr title), (''event_date'', PStr event_date),
      (''gender'', PStr gender), (''province'', PStr province)] \<and>
   ((\<forall>arow \<in> set (t_rows a). cell a arow ''event_id'' \<noteq> cell e erow ''id'') \<longrightarrow>
      get_attendance_data (d\<lparr>events := Some (e\<lparr>t_rows := removeAll erow (t_rows e)\<rparr>)\<rparr>) =
      get_attendance_data d)"
    by blast
qed

theorem get_attendance_data_inner_join_witness:
  "std_store demo_store \<and>
   get_attendance_data demo_store =
     Inr [[(''event_title'', PStr ''Soil Health Day''), (''event_date'', PStr ''2024-03-01''),
           (''gender'', PStr ''Female''), (''province'', PStr ''Nairobi'')],
          [(''event_title'', PStr ''Soil Health Day''), (''event_date'', PStr ''2024-03-01''),
           (''gender'', PStr ''Male''), (''province'', PStr ''Kiambu'')]] \<and>
   get_attendance_data
     (demo_store\<lparr>events := Some (the (events demo_store)
        \<lparr>t_rows := removeAll (event_row 2 ''Field Day'' ''2024-04-01'' ''Kiambu'' [])
                    (t_rows (the (events demo_store)))\<rparr>)\<rparr>) =
   get_attendance_data demo_store"
proof -
  let ?e = "the (events demo_store)"
  let ?a = "the (attendees demo_store)"
  let ?erow = "event_row 2 ''Field Day'' ''2024-04-01'' ''Kiambu'' []"
  have s: "std_store demo_store" by code_simp
  have ev: "events demo_store = Some ?e" by (simp add: demo_store_def)
  have at: "attendees demo_store = Some ?a" by (simp add: demo_store_def)
  have none: "\<forall>arow \<in> set (t_rows ?a). cell ?a arow ''event_id'' \<noteq> cell ?e ?erow ''id''"
    by code_simp
  note inst = get_attendance_data_inner_join [where d = demo_store and e = "?e" and a = "?a" and erow = "?erow"]
  from inst s ev at have "get_attendance_data demo_store =
     Inr (concat (map (\<lambda>arow.
            case find (\<lambda>erow. cell ?e erow ''id'' = cell ?a arow ''event_id'') (t_rows ?e) of
              None \<Rightarrow> []
            | Some erow \<Rightarrow> [attendance_record ?a ?e arow erow])
          (t_rows ?a)))"
    by blast
  moreover have "concat (map (\<lambda>arow.
            case find (\<lambda>erow. cell ?e erow ''id'' = cell ?a arow ''event_id'') (t_rows ?e) of
              None \<Rightarrow> []
            | Some erow \<Rightarrow> [attendance_record ?a ?e arow erow])
          (t_rows ?a)) =
      [[(''event_title'', PStr ''Soil Health Day''), (''event_date'', PStr ''2024-03-01''),
           (''gender'', PStr ''Female''), (''province'', PStr ''Nairobi'')],
          [(''event_title'', PStr ''Soil Health Day''), (''event_date'', PStr ''2024-03-01''),
           (''gender'', PStr ''Male''), (''province'', PStr ''Kiambu'')]]"
    by code_simp
  moreover from inst s ev at none have "get_attendance_data
     (demo_store\<lparr>events := Some (?e\<lparr>t_rows := removeAll ?erow (t_rows ?e)\<rparr>)\<rparr>) =
     get_attendance_data demo_store"
    by blast
  ultimately show ?thesis using s by simp
qed


section \<open>Initialisation\<close>

lemma column_names_renamed:
  "column_names (renamed tb) = map (\<lambda>n. if n = ''date'' then ''event_date'' else n) (column_names tb)"
  by (simp add: renamed_def column_names_def o_def if_distrib cong: if_cong)

lemma not_legacy_renamed: "''date'' \<in> set (column_names tb) \<Longrightarrow> \<not> legacy (Some (renamed tb))"
  by (auto simp: legacy_def table_info_names_def column_names_renamed)

lemma not_legacy_created: "\<not> legacy (create_table_if_not_exists events_schema None)"
  by (simp add: legacy_def create_table_if_not_exists_def table_info_names_def column_names_def
      events_schema_def col_def)

lemma create_Some [simp]: "create_table_if_not_exists cols (Some t) = Some t"
  by (simp add: create_table_if_not_exists_def)

lemma create_idem [simp]:
  "create_table_if_not_exists cols (create_table_if_not_exists cols t) = create_table_if_not_exists cols t"
  by (cases t) (simp_all add: create_table_if_not_exists_def)

lemma legacy_created: "legacy (create_table_if_not_exists events_schema t) = legacy t"
proof (cases t)
  case None
  then show ?thesis
    using not_legacy_created by (simp add: legacy_def table_info_names_def)
next
  case (Some tb)
  then show ?thesis by simp
qed

lemma rename_legacy:
  "legacy (Some tb) \<Longrightarrow>
   rename_column accepted ''date'' ''event_date'' (Some tb) =
     (if accepted then Inr (Some (renamed tb)) else Inl OperationalError)"
  by (simp add: rename_column_def legacy_def table_info_names_def renamed_def)

lemma init_db_alt:
  "init_db accepted d =
     (let ev = create_table_if_not_exists events_schema (events d);
          at = create_table_if_not_exists attendees_schema (attendees d)
      in if legacy ev
         then (case rename_column accepted ''date'' ''event_date'' ev of
                 Inr t \<Rightarrow> Inr ([CreateEvents, CreateAttendees, TableInfo, RenameColumn, Commit, Commit],
                               d\<lparr>events := t, attendees := at\<rparr>)
               | Inl e \<Rightarrow> Inr ([CreateEvents, CreateAttendees, TableInfo, RenameColumn, Commit],
                               d\<lparr>events := ev, attendees := at\<rparr>))
         else Inr ([CreateEvents, CreateAttendees, TableInfo, Commit],
                   d\<lparr>events := ev, attendees := at\<rparr>))"
  by (simp add: init_db_def legacy_def Let_def split: sum.split)

lemma init_db_cases:
  "init_db accepted d =
     (let at = create_table_if_not_exists attendees_schema (attendees d)
      in if legacy (events d)
         then if accepted
              then Inr ([CreateEvents, CreateAttendees, TableInfo, RenameColumn, Commit, Commit],
                        d\<lparr>events := map_option renamed (events d), attendees := at\<rparr>)
              else Inr ([CreateEvents, CreateAttendees, TableInfo, RenameColumn, Commit],
                        d\<lparr>attendees := at\<rparr>)
         else Inr ([CreateEvents, CreateAttendees, TableInfo, Commit],
                   d\<lparr>events := create_table_if_not_exists events_schema (events d),
                     attendees := at\<rparr>))"
proof (cases "events d")
  case None
  then show ?thesis
    using not_legacy_created legacy_created [of None]
    by (simp add: init_db_alt Let_def)
next
  case (Some tb)
  show ?thesis
  proof (cases "legacy (Some tb)")
    case True
    then show ?thesis
      using Some rename_legacy [OF True, of accepted]
      by (simp add: init_db_alt Let_def)
  next
    case False
    then show ?thesis
      using Some by (simp add: init_db_alt Let_def)
  qed
qed

lemma legacy_Some: "legacy t \<Longrightarrow> \<exists>tb. t = Some tb"
  by (cases t) (simp_all add: legacy_def table_info_names_def)

lemma create_not_None: "\<exists>tb. create_table_if_not_exists cols t = Some tb"
  by (cases t) (simp_all add: create_table_if_not_exists_def)

text \<open>
  C6. \<^verbatim>\<open>init_db\<close> is idempotent: on any database the first call returns, both tables
  exist after it, and a second call on its result (the engine giving the same verdict on
  a rename) returns as well and leaves the database, schemas and rows, exactly as the
  first call left it.
\<close>

theorem init_db_idempotent:
  "\<exists>tr tr' d1. init_db accepted d = Inr (tr, d1) \<and> init_db accepted d1 = Inr (tr', d1) \<and>
     events d1 \<noteq> None \<and> attendees d1 \<noteq> None"
proof (cases "legacy (events d)")
  case False
  let ?d1 = "d\<lparr>events := create_table_if_not_exists events_schema (events d),
               attendees := create_table_if_not_exists attendees_schema (attendees d)\<rparr>"
  from False have 1: "init_db accepted d = Inr ([CreateEvents, CreateAttendees, TableInfo, Commit], ?d1)"
    by (simp add: init_db_cases)
  from False have "\<not> legacy (events ?d1)"
    by (simp add: legacy_created)
  then have 2: "init_db accepted ?d1 = Inr ([CreateEvents, CreateAttendees, TableInfo, Commit], ?d1)"
    by (simp add: init_db_cases)
  from 1 2 show ?thesis
    by (simp add: create_not_None)
next
  case True
  then obtain tb where tb: "events d = Some tb"
    using legacy_Some by blast
  show ?thesis
  proof (cases accepted)
    case False
    let ?d1 = "d\<lparr>attendees := create_table_if_not_exists attendees_schema (attendees d)\<rparr>"
    from True False have 1: "init_db accepted d =
        Inr ([CreateEvents, CreateAttendees, TableInfo, RenameColumn, Commit], ?d1)"
      by (simp add: init_db_cases)
    from True have "legacy (events ?d1)" by simp
    with False have 2: "init_db accepted ?d1 =
        Inr ([CreateEvents, CreateAttendees, TableInfo, RenameColumn, Commit], ?d1)"
      by (simp add: init_db_cases)
    from 1 2 tb show ?thesis
      by (simp add: create_not_None)
  next
    case acc: True
    let ?d1 = "d\<lparr>events := Some (renamed tb),
                 attendees := create_table_if_not_exists attendees_schema (attendees d)\<rparr>"
    from True acc tb have 1: "init_db accepted d =
        Inr ([CreateEvents, CreateAttendees, TableInfo, RenameColumn, Commit, Commit], ?d1)"
      by (simp add: init_db_cases)
    from True tb have "''date'' \<in> set (column_names tb)"
      by (simp add: legacy_def table_info_names_def)
    then have "\<not> legacy (events ?d1)"
      by (simp add: not_legacy_renamed)
    then have 2: "init_db accepted ?d1 = Inr ([CreateEvents, CreateAttendees, TableInfo, Commit], ?d1)"
      by (simp add: init_db_cases)
    from 1 2 show ?thesis
      by (simp add: create_not_None)
  qed
qed

text \<open>
  C7. \<^verbatim>\<open>init_db\<close> always returns. It hands the rename to the engine exactly when the
  events schema, as \<^verbatim>\<open>PRAGMA table_info\<close> reports it after the tables are ensured, has a
  column \<^verbatim>\<open>date\<close> and no column \<^verbatim>\<open>event_date\<close>; that is the case exactly when the events
  table was there before the call with such columns. When the rename fails, the events
  table is left as it was; when it succeeds, the events table is the renamed one; when
  it is not attempted, the events table is the one that was there, or the new one.
\<close>

theorem init_db_rename_attempt:
  "\<exists>tr d'. init_db accepted d = Inr (tr, d') \<and>
     (RenameColumn \<in> set tr) =
       (''date'' \<in> set (table_info_names (create_table_if_not_exists events_schema (events d))) \<and>
        ''event_date'' \<notin> set (table_info_names (create_table_if_not_exists events_schema (events d)))) \<and>
     (RenameColumn \<in> set tr) =
       (''date'' \<in> set (table_info_names (events d)) \<and>
        ''event_date'' \<notin> set (table_info_names (events d))) \<and>
     (RenameColumn \<in> set tr \<and> isl (rename_column accepted ''date'' ''event_date'' (events d)) \<longrightarrow>
        events d' = events d) \<and>
     (RenameColumn \<in> set tr \<and> \<not> isl (rename_column accepted ''date'' ''event_date'' (events d)) \<longrightarrow>
        rename_column accepted ''date'' ''event_date'' (events d) = Inr (events d')) \<and>
     (RenameColumn \<notin> set tr \<longrightarrow>
        events d' = create_table_if_not_exists events_schema (events d))"
proof (cases "legacy (events d)")
  case False
  then have "init_db accepted d = Inr ([CreateEvents, CreateAttendees, TableInfo, Commit],
      d\<lparr>events := create_table_if_not_exists events_schema (events d),
        attendees := create_table_if_not_exists attendees_schema (attendees d)\<rparr>)"
    by (simp add: init_db_cases)
  moreover from False have "\<not> legacy (create_table_if_not_exists events_schema (events d))"
    by (simp add: legacy_created)
  ultimately show ?thesis
    using False by (simp add: legacy_def)
next
  case True
  then obtain tb where tb: "events d = Some tb"
    using legacy_Some by blast
  from True tb have rn: "rename_column accepted ''date'' ''event_date'' (events d) =
      (if accepted then Inr (Some (renamed tb)) else Inl OperationalError)"
    by (simp add: rename_legacy)
  from True have post: "legacy (create_table_if_not_exists events_schema (events d))"
    by (simp add: legacy_created)
  show ?thesis
  proof (cases accepted)
    case False
    with True have "init_db accepted d =
        Inr ([CreateEvents, CreateAttendees, TableInfo, RenameColumn, Commit],
             d\<lparr>attendees := create_table_if_not_exists attendees_schema (attendees d)\<rparr>)"
      by (simp add: init_db_cases)
    then show ?thesis
      using True post False rn by (simp add: legacy_def)
  next
    case acc: True
    with True tb have "init_db accepted d =
        Inr ([CreateEvents, CreateAttendees, TableInfo, RenameColumn, Commit, Commit],
             d\<lparr>events := Some (renamed tb),
               attendees := create_table_if_not_exists attendees_schema (attendees d)\<rparr>)"
      by (simp add: init_db_cases)
    then show ?thesis
      using True post acc rn by (simp add: legacy_def)
  qed
qed


theorem init_db_rename_attempt_witness:
  "(\<exists>tr d'. init_db False legacy_store = Inr (tr, d') \<and> RenameColumn \<in> set tr \<and>
      events d' = events legacy_store) \<and>
   (\<exists>tr d'. init_db True legacy_store = Inr (tr, d') \<and> RenameColumn \<in> set tr \<and>
      map_option column_names (events d') = Some [''id'', ''title'', ''event_date'']) \<and>
   (\<exists>tr d'. init_db True empty_db = Inr (tr, d') \<and> RenameColumn \<notin> set tr \<and>
      map_option column_names (events d') =
        Some [''id'', ''title'', ''event_date'', ''location'', ''topic''])"
proof (intro conjI)
  have c: "''date'' \<in> set (table_info_names (events legacy_store)) \<and>
        ''event_date'' \<notin> set (table_info_names (events legacy_store))"
    by code_simp
  have f: "isl (rename_column False ''date'' ''event_date'' (events legacy_store))"
    by code_simp
  from init_db_rename_attempt [of False legacy_store] c f
  show "\<exists>tr d'. init_db False legacy_store = Inr (tr, d') \<and> RenameColumn \<in> set tr \<and>
      events d' = events legacy_store"
    by blast
  have t: "rename_column True ''date'' ''event_date'' (events legacy_store) =
      Inr (Some \<lparr>t_cols = [col ''id'' False True, col ''title'' True False,
                            col ''event_date'' True False],
                  t_rows = [[PInt 1, PStr ''Old'', PStr ''2023-01-01'']], t_seq = 1\<rparr>)"
    by code_simp
  from init_db_rename_attempt [of True legacy_store] c t
  obtain tr d' where "init_db True legacy_store = Inr (tr, d')" "RenameColumn \<in> set tr"
    "Inr (events d') = (Inr (Some \<lparr>t_cols = [col ''id'' False True, col ''title'' True False,
                            col ''event_date'' True False],
                  t_rows = [[PInt 1, PStr ''Old'', PStr ''2023-01-01'']], t_seq = 1\<rparr>) :: error + table option)"
    by force
  then show "\<exists>tr d'. init_db True legacy_store = Inr (tr, d') \<and> RenameColumn \<in> set tr \<and>
      map_option column_names (events d') = Some [''id'', ''title'', ''event_date'']"
    by (auto simp: column_names_def col_def)
  have n: "\<not> (''date'' \<in> set (table_info_names (events empty_db)) \<and>
        ''event_date'' \<notin> set (table_info_names (events empty_db)))"
    by code_simp
  have m: "map_option column_names (create_table_if_not_exists events_schema (events empty_db)) =
      Some [''id'', ''title'', ''event_date'', ''location'', ''topic'']"
    by code_simp
  from init_db_rename_attempt [of True empty_db] n m
  show "\<exists>tr d'. init_db True empty_db = Inr (tr, d') \<and> RenameColumn \<notin> set tr \<and>
      map_option column_names (events d') =
        Some [''id'', ''title'', ''event_date'', ''location'', ''topic'']"
    by force
qed

section \<open>Stored rows are never changed\<close>

lemma insert_row_Inr:
  "insert_row bound t = Inr t' \<Longrightarrow>
   \<exists>tb tb' row. t = Some tb \<and> t' = Some tb' \<and> t_cols tb' = t_cols tb \<and>
     t_rows tb' = t_rows tb @ [row]"
  by (cases t) (auto simp: insert_row_def Let_def split: if_splits)

lemma init_db_rows:
  assumes "init_db accepted d = Inr (tr, d')"
  shows "map_option t_rows (events d') =
           map_option t_rows (create_table_if_not_exists events_schema (events d))"
    and "attendees d' = create_table_if_not_exists attendees_schema (attendees d)"
proof -
  have "legacy (events d) \<Longrightarrow> \<exists>tb. events d = Some tb"
    by (rule legacy_Some)
  with assms show "map_option t_rows (events d') =
           map_option t_rows (create_table_if_not_exists events_schema (events d))"
    by (auto simp: init_db_cases Let_def renamed_def split: if_splits)
  from assms show "attendees d' = create_table_if_not_exists attendees_schema (attendees d)"
    by (auto simp: init_db_cases Let_def split: if_splits)
qed

text \<open>
  C9. No operation updates or deletes a stored row. \<^verbatim>\<open>add_attendee\<close> leaves the events
  table as it is and appends one row to the attendees; \<^verbatim>\<open>add_event\<close> leaves the
  attendees table as it is and appends one row to the events, whose columns and
  earlier rows stay; \<^verbatim>\<open>init_db\<close> keeps the rows of an events table that is there and
  keeps an attendees table that is there as it is. (The two readers return no database.)
\<close>

theorem stored_rows_kept:
  "(add_attendee event_id name gender province d = Inr d' \<longrightarrow>
      events d' = events d \<and>
      (\<exists>a a' row. attendees d = Some a \<and> attendees d' = Some a' \<and> t_cols a' = t_cols a \<and>
         t_rows a' = t_rows a @ [row])) \<and>
   (add_event title event_date location topic d = Inr d' \<longrightarrow>
      attendees d' = attendees d \<and>
      (\<exists>e e' row. events d = Some e \<and> events d' = Some e' \<and> t_cols e' = t_cols e \<and>
         t_rows e' = t_rows e @ [row])) \<and>
   (init_db accepted d = Inr (tr, d') \<longrightarrow>
      (\<forall>e. events d = Some e \<longrightarrow> (\<exists>e'. events d' = Some e' \<and> t_rows e' = t_rows e)) \<and>
      (\<forall>a. attendees d = Some a \<longrightarrow> attendees d' = Some a))"
proof (intro conjI impI)
  assume "add_attendee event_id name gender province d = Inr d'"
  then obtain t' where i: "insert_row [(''event_id'', PInt event_id), (''name'', PStr name),
      (''gender'', PStr gender), (''province'', PStr province)] (attendees d) = Inr t'"
    and d': "d' = d\<lparr>attendees := t'\<rparr>"
    by (auto simp: add_attendee_def split: sum.splits)
  from d' show "events d' = events d" by simp
  from insert_row_Inr [OF i] d'
  show "\<exists>a a' row. attendees d = Some a \<and> attendees d' = Some a' \<and> t_cols a' = t_cols a \<and>
         t_rows a' = t_rows a @ [row]"
    by auto
next
  assume "add_event title event_date location topic d = Inr d'"
  then obtain t' where i: "insert_row [(''title'', PStr title), (''event_date'', PStr event_date),
      (''location'', PStr location), (''topic'', PStr topic)] (events d) = Inr t'"
    and d': "d' = d\<lparr>events := t'\<rparr>"
    by (auto simp: add_event_def split: sum.splits)
  from d' show "attendees d' = attendees d" by simp
  from insert_row_Inr [OF i] d'
  show "\<exists>e e' row. events d = Some e \<and> events d' = Some e' \<and> t_cols e' = t_cols e \<and>
         t_rows e' = t_rows e @ [row]"
    by auto
next
  assume i: "init_db accepted d = Inr (tr, d')"
  from init_db_rows(1) [OF i]
  show "\<forall>e. events d = Some e \<longrightarrow> (\<exists>e'. events d' = Some e' \<and> t_rows e' = t_rows e)"
    by auto
  from init_db_rows(2) [OF i]
  show "\<forall>a. attendees d = Some a \<longrightarrow> attendees d' = Some a"
    by auto
qed

theorem stored_rows_kept_witness:
  "\<exists>d1 d2 tr d3.
     add_event ''Seed Fair'' ''2024-06-01'' ''Thika'' [] demo_store = Inr d1 \<and>
     attendees d1 = attendees demo_store \<and>
     add_attendee 2 ''Wanjiru'' ''Female'' ''Kiambu'' demo_store = Inr d2 \<and>
     events d2 = events demo_store \<and>
     init_db True legacy_store = Inr (tr, d3) \<and>
     map_option t_rows (events d3) = Some [[PInt 1, PStr ''Old'', PStr ''2023-01-01'']]"
proof -
  have s: "std_store demo_store" by code_simp
  then obtain d1 where d1: "add_event ''Seed Fair'' ''2024-06-01'' ''Thika'' [] demo_store = Inr d1"
    using add_event_std(1) [of demo_store "the (events demo_store)"]
    by (simp add: std_store_def demo_store_def)
  have "fits_int64 (PInt 2)" by (simp add: fits_int64_def)
  with s obtain d2 where d2: "add_attendee 2 ''Wanjiru'' ''Female'' ''Kiambu'' demo_store = Inr d2"
    using add_attendee_std(1) [of demo_store "the (attendees demo_store)" 2]
    by (simp add: std_store_def demo_store_def)
  have "legacy (events legacy_store)" by code_simp
  then obtain tr d3 where d3: "init_db True legacy_store = Inr (tr, d3)"
    by (simp add: init_db_cases Let_def)
  have ev: "events legacy_store =
      Some \<lparr>t_cols = [col ''id'' False True, col ''title'' True False, col ''date'' True False],
            t_rows = [[PInt 1, PStr ''Old'', PStr ''2023-01-01'']], t_seq = 1\<rparr>"
    by (simp add: legacy_store_def)
  from stored_rows_kept [where d = demo_store and d' = d1 and title = "''Seed Fair''"
      and event_date = "''2024-06-01''" and location = "''Thika''" and topic = "[]"] d1
  have 1: "attendees d1 = attendees demo_store" by blast
  from stored_rows_kept [where d = demo_store and d' = d2 and event_id = 2 and name = "''Wanjiru''"
      and gender = "''Female''" and province = "''Kiambu''"] d2
  have 2: "events d2 = events demo_store" by blast
  from stored_rows_kept [where d = legacy_store and d' = d3 and tr = tr and accepted = True] d3 ev
  have 3: "map_option t_rows (events d3) = Some [[PInt 1, PStr ''Old'', PStr ''2023-01-01'']]"
    by fastforce
  from d1 d2 d3 1 2 3 show ?thesis by blast
qed

section \<open>Inserts are not validated\<close>







end
